theory Spec2Isabelle
  imports Complex_Main "HOL-Library.AList"
begin

section \<open>Python values, exceptions and the client's configuration\<close>

text \<open>
  The wrapper of \<^verbatim>\<open>_dispatch_method\<close> (client.py, lines 71 to 97) is dynamically typed:
  items, per-item results and the records inside a result are arbitrary Python values.
  The model uses one universe of values. Python's \<^verbatim>\<open>bool\<close> is a subclass of
  \<^verbatim>\<open>int\<close>, so \<^verbatim>\<open>False\<close> and \<^verbatim>\<open>True\<close> are \<open>PyInt 0\<close> and \<open>PyInt 1\<close>;
  on this universe Python's \<^verbatim>\<open>==\<close> is structural equality.
\<close>

datatype pyval =
    PyNone
  | PyInt int
  | PyStr string
  | PyList "pyval list"
  | PyTuple "pyval list"

text \<open>
  An exception is a value. \<open>TypeError\<close> is the class of the built-in exception the
  interpreter raises when a \<^verbatim>\<open>for\<close> statement meets a value that is not iterable and
  when a dict is given an unhashable key; its message is not modelled. \<open>Raised msg\<close>
  stands for any other exception of the wrapped method.
\<close>

datatype exn = TypeError | Raised string

text \<open>\<^verbatim>\<open>hash(v)\<close> succeeds: lists are unhashable, a tuple is hashable when its elements are.\<close>

fun hashable :: "pyval \<Rightarrow> bool" where
  "hashable PyNone = True"
| "hashable (PyInt n) = True"
| "hashable (PyStr s) = True"
| "hashable (PyList xs) = False"
| "hashable (PyTuple xs) = list_all hashable xs"

text \<open>
  \<^verbatim>\<open>for x in data\<close>: the elements the loop visits, or the \<^verbatim>\<open>TypeError\<close> of a value
  that is not iterable. A string iterates over its one-character substrings.
\<close>

fun py_iter :: "pyval \<Rightarrow> exn + pyval list" where
  "py_iter PyNone = Inl TypeError"
| "py_iter (PyInt n) = Inl TypeError"
| "py_iter (PyStr s) = Inr (map (\<lambda>c. PyStr [c]) s)"
| "py_iter (PyList xs) = Inr xs"
| "py_iter (PyTuple xs) = Inr xs"

text \<open>
  The two attributes of \<^verbatim>\<open>self\<close> that the wrapper reads, \<^verbatim>\<open>n_jobs\<close> and
  \<^verbatim>\<open>verbose\<close>, are whatever the caller passed to the constructor. The wrapper
  compares them with an \<^verbatim>\<open>int\<close> literal by Python's \<^verbatim>\<open>==\<close>, which holds between
  an \<^verbatim>\<open>int\<close> and a number of another type with the same value. So a setting is
  \<^verbatim>\<open>None\<close>, an \<^verbatim>\<open>int\<close> (a \<^verbatim>\<open>bool\<close> is the \<^verbatim>\<open>int\<close> 0 or 1), a number that is
  not an \<^verbatim>\<open>int\<close> (a \<^verbatim>\<open>float\<close>, a \<^verbatim>\<open>Decimal\<close>, a \<^verbatim>\<open>Fraction\<close>) given by its
  value, or a string.
\<close>

datatype pyconf =
    ConfNone
  | ConfInt int
  | ConfFloat real
  | ConfStr string

text \<open>\<^verbatim>\<open>v == n\<close> for an \<^verbatim>\<open>int\<close> literal \<open>n\<close>.\<close>

fun py_eq_int :: "pyconf \<Rightarrow> int \<Rightarrow> bool" where
  "py_eq_int ConfNone n = False"
| "py_eq_int (ConfInt m) n = (m = n)"
| "py_eq_int (ConfFloat x) n = (x = of_int n)"
| "py_eq_int (ConfStr s) n = False"

record client =
  n_jobs :: pyconf
  verbose :: pyconf

type_synonym kwargs = "string \<rightharpoonup> pyval"

text \<open>
  \<^verbatim>\<open>GrottoClient.__init__\<close> (lines 101 to 110): \<^verbatim>\<open>n_jobs\<close> and \<^verbatim>\<open>verbose\<close> are popped
  from the keyword arguments, with defaults \<^verbatim>\<open>None\<close> and \<^verbatim>\<open>False\<close>. The remaining
  keyword arguments go to the constructor of the external CAVE client, which is not part
  of this model.
\<close>

definition GrottoClient_init :: "(string \<rightharpoonup> pyconf) \<Rightarrow> client" where
  "GrottoClient_init kwargs =
     \<lparr> n_jobs = (case kwargs ''n_jobs'' of Some v \<Rightarrow> v | None \<Rightarrow> ConfNone),
       verbose = (case kwargs ''verbose'' of Some v \<Rightarrow> v | None \<Rightarrow> ConfInt 0) \<rparr>"

text \<open>
  The wrapped single-item method, \<^verbatim>\<open>method(self, item, **kwargs)\<close>: it returns a value
  or raises.
\<close>

type_synonym py_method = "client \<Rightarrow> pyval \<Rightarrow> kwargs \<Rightarrow> exn + pyval"

section \<open>Observable effects\<close>

text \<open>
  What a call of the wrapper does besides returning: the items on which the wrapped
  method was invoked, in the order of the invocations, and the number of completion
  ticks the progress bar received.
\<close>

record effects =
  calls :: "pyval list"
  ticks :: nat

definition no_effects :: effects where
  "no_effects = \<lparr> calls = [], ticks = 0 \<rparr>"

definition invoke :: "pyval \<Rightarrow> effects \<Rightarrow> effects" where
  "invoke item fx = fx\<lparr> calls := calls fx @ [item] \<rparr>"

text \<open>
  Modelled from the spec: \<^verbatim>\<open>tqdm\<close> is an external library, absent from the sources.
  The spec (section 4.1, side effects) says of the progress sink: one tick per completed
  item when progress is enabled, no tick when it is not. The bar is created with
  \<^verbatim>\<open>disable=...\<close>; \<open>tqdm_update\<close> is one completed item.
\<close>

definition tqdm_update :: "bool \<Rightarrow> effects \<Rightarrow> effects" where
  "tqdm_update disable fx = (if disable then fx else fx\<lparr> ticks := ticks fx + 1 \<rparr>)"

section \<open>The sequential branch (lines 74 to 76)\<close>

text \<open>
  \<^verbatim>\<open>
  data_by_object = []
  for item in tqdm(array, desc=method.__name__, disable=self.verbose == 0):
      data_by_object.append(method(self, item, **kwargs))
  \<close>
  An exception of the method leaves the loop at once; the bar counts an item when the
  loop body has finished and the next item is requested.
\<close>

fun sequential_loop ::
  "py_method \<Rightarrow> client \<Rightarrow> kwargs \<Rightarrow> bool \<Rightarrow> pyval list \<Rightarrow> pyval list \<Rightarrow> effects
     \<Rightarrow> effects \<times> (exn + pyval list)" where
  "sequential_loop method self kwargs disable [] data_by_object fx = (fx, Inr data_by_object)"
| "sequential_loop method self kwargs disable (item # rest) data_by_object fx =
     (case method self item kwargs of
        Inl e \<Rightarrow> (invoke item fx, Inl e)
      | Inr r \<Rightarrow>
          sequential_loop method self kwargs disable rest (data_by_object @ [r])
            (tqdm_update disable (invoke item fx)))"

section \<open>The worker-pool branch (lines 78 to 83)\<close>

text \<open>
  \<^verbatim>\<open>joblib.delayed(method)(self, item, **kwargs)\<close> does not call the method: it builds
  the task, the function with its arguments.
\<close>

record task =
  func :: py_method
  self_arg :: client
  item_arg :: pyval
  kwargs_arg :: kwargs

definition delayed :: "py_method \<Rightarrow> client \<Rightarrow> pyval \<Rightarrow> kwargs \<Rightarrow> task" where
  "delayed method self item kwargs =
     \<lparr> func = method, self_arg = self, item_arg = item, kwargs_arg = kwargs \<rparr>"

definition run_task :: "task \<Rightarrow> exn + pyval" where
  "run_task t = func t (self_arg t) (item_arg t) (kwargs_arg t)"

text \<open>
  Modelled from the spec: \<^verbatim>\<open>joblib.Parallel\<close> and \<^verbatim>\<open>tqdm_joblib\<close> are external
  libraries, absent from the sources. The spec (section 4.1, step 3, and the error
  conditions) says of the pool: all tasks are submitted; the pool may execute them in
  any interleaving; each completed result is associated with its originating item and
  the aggregate is reassembled in input order, not completion order; progress is updated
  as tasks complete; a failing task's error is surfaced and no partial aggregate is
  returned. Of the two failure policies that section 5 of the spec leaves open, the
  model takes the first: the remaining tasks are cancelled on the first failure.

  The interleaving is a parameter, \<open>picks\<close>: at each step the next pick selects, modulo
  their number, one of the tasks still pending (the first one when the picks are
  used up), so every list of picks is an interleaving and every completion order is the
  result of some picks. A completed task's result is stored at the task's own index.
  The size of the pool only restricts the interleavings, so the model does not look at
  it.
\<close>

definition next_pick :: "nat list \<Rightarrow> nat \<Rightarrow> nat" where
  "next_pick picks n = (case picks of [] \<Rightarrow> 0 | p # _ \<Rightarrow> p mod n)"

definition remove_nth :: "nat \<Rightarrow> 'a list \<Rightarrow> 'a list" where
  "remove_nth k xs = take k xs @ drop (Suc k) xs"

function Parallel_loop ::
  "bool \<Rightarrow> nat list \<Rightarrow> (nat \<times> task) list \<Rightarrow> pyval list \<Rightarrow> effects
     \<Rightarrow> effects \<times> (exn + pyval list)" where
  "Parallel_loop disable picks [] out fx = (fx, Inr out)"
| "Parallel_loop disable picks (p # ps) out fx =
     (let k = next_pick picks (length (p # ps));
          (i, t) = (p # ps) ! k
      in case run_task t of
           Inl e \<Rightarrow> (invoke (item_arg t) fx, Inl e)
         | Inr v \<Rightarrow>
             Parallel_loop disable (tl picks) (remove_nth k (p # ps)) (out[i := v])
               (tqdm_update disable (invoke (item_arg t) fx)))"
  by pat_completeness auto
termination
  by (relation "measure (\<lambda>(disable, picks, pending, out, fx). length pending)")
     (auto simp: remove_nth_def next_pick_def split: list.splits)

definition Parallel ::
  "pyconf \<Rightarrow> bool \<Rightarrow> nat list \<Rightarrow> task list \<Rightarrow> effects \<Rightarrow> effects \<times> (exn + pyval list)" where
  "Parallel pool_size disable picks tasks fx =
     Parallel_loop disable picks (enumerate 0 tasks) (replicate (length tasks) PyNone) fx"

section \<open>Assembling the output (lines 85 to 95)\<close>

text \<open>A row of the data frame: \<^verbatim>\<open>{"object": item, "data": x}\<close>.\<close>

record row =
  object :: pyval
  data :: pyval

text \<open>
  What the wrapper returns: the list, the dict (its entries in insertion order), the
  data frame (its rows in order), or \<^verbatim>\<open>None\<close> when the function ends without a
  \<^verbatim>\<open>return\<close>.
\<close>

datatype retval =
    ListOut "pyval list"
  | DictOut "(pyval \<times> pyval) list"
  | DataFrameOut "row list"
  | NoneOut

text \<open>
  \<^verbatim>\<open>{item: data for item, data in zip(array, data_by_object)}\<close>: a key seen again keeps
  its place and takes the new value; an unhashable key raises \<^verbatim>\<open>TypeError\<close>.
\<close>

fun dict_comprehension ::
  "(pyval \<times> pyval) list \<Rightarrow> (pyval \<times> pyval) list \<Rightarrow> exn + (pyval \<times> pyval) list" where
  "dict_comprehension [] d = Inr d"
| "dict_comprehension ((item, dat) # rest) d =
     (if hashable item then dict_comprehension rest (AList.update item dat d)
      else Inl TypeError)"

text \<open>
  \<^verbatim>\<open>
  new_data = []
  for item, data in zip(array, data_by_object):
      for x in data:
          new_data.append({"object": item, "data": x})
  \<close>
\<close>

fun dataframe_loop :: "(pyval \<times> pyval) list \<Rightarrow> row list \<Rightarrow> exn + row list" where
  "dataframe_loop [] new_data = Inr new_data"
| "dataframe_loop ((item, dat) # rest) new_data =
     (case py_iter dat of
        Inl e \<Rightarrow> Inl e
      | Inr xs \<Rightarrow>
          dataframe_loop rest
            (foldl (\<lambda>acc x. acc @ [\<lparr> object = item, data = x \<rparr>]) new_data xs))"

definition assemble :: "string \<Rightarrow> pyval list \<Rightarrow> pyval list \<Rightarrow> exn + retval" where
  "assemble output_format array data_by_object =
     (if output_format = ''list'' then Inr (ListOut data_by_object)
      else if output_format = ''dict'' then
        (case dict_comprehension (zip array data_by_object) [] of
           Inl e \<Rightarrow> Inl e
         | Inr d \<Rightarrow> Inr (DictOut d))
      else if output_format = ''dataframe'' then
        (case dataframe_loop (zip array data_by_object) [] of
           Inl e \<Rightarrow> Inl e
         | Inr new_data \<Rightarrow> Inr (DataFrameOut new_data))
      else Inr NoneOut)"

section \<open>The wrapper\<close>

text \<open>
  Lines 73 to 83, the choice between the loop and the pool, on \<^verbatim>\<open>self.n_jobs == 1\<close>;
  the bar is disabled on \<^verbatim>\<open>self.verbose == 0\<close>. \<open>picks\<close> is the interleaving
  of the pool; the sequential branch does not look at it. The label of the progress bar
  (\<^verbatim>\<open>desc=method.__name__\<close>) and its announced total (\<^verbatim>\<open>total=n_tasks\<close>) change
  neither the result nor the ticks and are left out.
\<close>

definition execute ::
  "py_method \<Rightarrow> nat list \<Rightarrow> client \<Rightarrow> pyval list \<Rightarrow> kwargs \<Rightarrow> effects \<times> (exn + pyval list)" where
  "execute method picks self array kwargs =
     (if py_eq_int (n_jobs self) 1 then
        sequential_loop method self kwargs (py_eq_int (verbose self) 0) array [] no_effects
      else
        let tasks = map (\<lambda>item. delayed method self item kwargs) array
        in Parallel (n_jobs self) (py_eq_int (verbose self) 0) picks tasks no_effects)"

definition wrapper ::
  "py_method \<Rightarrow> string \<Rightarrow> nat list \<Rightarrow> client \<Rightarrow> pyval list \<Rightarrow> kwargs
     \<Rightarrow> effects \<times> (exn + retval)" where
  "wrapper method output_format picks self array kwargs =
     (case execute method picks self array kwargs of
        (fx, Inl e) \<Rightarrow> (fx, Inl e)
      | (fx, Inr data_by_object) \<Rightarrow> (fx, assemble output_format array data_by_object))"

section \<open>Example operations and clients\<close>

text \<open>
  Wrapped methods used to run the model on concrete inputs. \<open>get_leaves\<close> stands for
  the method of the commented example at the end of client.py: it returns a list, here
  the two children \<open>2 * k\<close> and \<open>2 * k + 1\<close> of node \<open>k\<close>.
\<close>

definition get_leaves :: py_method where
  "get_leaves self item kwargs =
     (case item of
        PyInt k \<Rightarrow> Inr (PyList [PyInt (2 * k), PyInt (2 * k + 1)])
      | _ \<Rightarrow> Inl TypeError)"

text \<open>Returns the node's level, an integer, and raises on node 3.\<close>

definition get_level :: py_method where
  "get_level self item kwargs =
     (if item = PyInt 3 then Inl (Raised ''node 3 not found'') else Inr (PyInt 2))"

text \<open>Raises the same exception on every item.\<close>

definition unavailable :: py_method where
  "unavailable self item kwargs = Inl (Raised ''service unavailable'')"

definition sequential_client :: client where
  "sequential_client = \<lparr> n_jobs = ConfInt 1, verbose = ConfInt 1 \<rparr>"

definition pool_client :: client where
  "pool_client = \<lparr> n_jobs = ConfInt 4, verbose = ConfInt 1 \<rparr>"

definition quiet_pool_client :: client where
  "quiet_pool_client = \<lparr> n_jobs = ConfInt 4, verbose = ConfInt 0 \<rparr>"

text \<open>The equations that run the model on a concrete input.\<close>

lemmas run_defs =
  wrapper_def execute_def Parallel_def delayed_def run_task_def next_pick_def remove_nth_def
  invoke_def tqdm_update_def no_effects_def assemble_def enumerate_eq_zip

section \<open>Properties of the two branches\<close>

lemma sequential_loop_success:
  "\<forall>item\<in>set items. meth self item kwargs = Inr (f item) \<Longrightarrow>
   sequential_loop meth self kwargs disable items acc fx =
     (fx\<lparr> calls := calls fx @ items,
          ticks := ticks fx + (if disable then 0 else length items) \<rparr>,
      Inr (acc @ map f items))"
  by (induction items arbitrary: acc fx) (simp_all add: invoke_def tqdm_update_def)

lemma sequential_loop_failure:
  "\<forall>item\<in>set pre. meth self item kwargs = Inr (f item) \<Longrightarrow>
   meth self x kwargs = Inl e \<Longrightarrow>
   sequential_loop meth self kwargs disable (pre @ x # post) acc fx =
     (fx\<lparr> calls := calls fx @ pre @ [x],
          ticks := ticks fx + (if disable then 0 else length pre) \<rparr>,
      Inl e)"
  by (induction pre arbitrary: acc fx) (simp_all add: invoke_def tqdm_update_def)

lemma next_pick_less: "0 < n \<Longrightarrow> next_pick picks n < n"
  by (simp add: next_pick_def split: list.splits)

lemma set_remove_nth:
  "k < length xs \<Longrightarrow> set xs = insert (xs ! k) (set (remove_nth k xs))"
  unfolding remove_nth_def
  by (subst (1) id_take_nth_drop [of k xs]) auto

lemma distinct_remove_nth:
  assumes "k < length xs" "distinct (map fst xs)"
  shows "distinct (map fst (remove_nth k xs)) \<and> fst (xs ! k) \<notin> fst ` set (remove_nth k xs)"
proof -
  have "xs = take k xs @ xs ! k # drop (Suc k) xs"
    using assms(1) by (rule id_take_nth_drop)
  then have "distinct (map fst (take k xs @ xs ! k # drop (Suc k) xs))"
    using assms(2) by simp
  then show ?thesis
    unfolding remove_nth_def by auto
qed

lemma Parallel_loop_success:
  "\<forall>i t. (i, t) \<in> set pending \<longrightarrow> i < length out \<and> run_task t = Inr (g i) \<Longrightarrow>
   distinct (map fst pending) \<Longrightarrow>
   \<exists>fx' out'. Parallel_loop disable picks pending out fx = (fx', Inr out')
      \<and> length out' = length out
      \<and> (\<forall>j<length out. out' ! j = (if j \<in> fst ` set pending then g j else out ! j))
      \<and> ticks fx' = ticks fx + (if disable then 0 else length pending)"
proof (induction disable picks pending out fx rule: Parallel_loop.induct)
  case (1 disable picks out fx)
  then show ?case by simp
next
  case (2 disable picks p ps out fx)
  let ?pending = "p # ps"
  define k where "k = next_pick picks (length ?pending)"
  obtain i t where it: "?pending ! k = (i, t)" by (cases "?pending ! k")
  have k: "k < length ?pending" unfolding k_def by (rule next_pick_less) simp
  have mem: "(i, t) \<in> set ?pending" using k it by (metis nth_mem)
  have run: "run_task t = Inr (g i)" and i: "i < length out"
    using "2.prems"(1) mem by blast+
  have setp: "set ?pending = insert (i, t) (set (remove_nth k ?pending))"
    using set_remove_nth [OF k] it by simp
  have dist: "distinct (map fst (remove_nth k ?pending))"
    and notin: "i \<notin> fst ` set (remove_nth k ?pending)"
    using distinct_remove_nth [OF k "2.prems"(2)] it by simp_all
  have pre: "\<forall>i' t'. (i', t') \<in> set (remove_nth k ?pending) \<longrightarrow>
                 i' < length (out[i := g i]) \<and> run_task t' = Inr (g i')"
  proof (intro allI impI)
    fix i' t' assume "(i', t') \<in> set (remove_nth k ?pending)"
    then have "(i', t') \<in> set ?pending" using setp by blast
    then have "i' < length out \<and> run_task t' = Inr (g i')"
      using "2.prems"(1) by blast
    then show "i' < length (out[i := g i]) \<and> run_task t' = Inr (g i')"
      by simp
  qed
  from "2.IH" [OF k_def it [symmetric] refl run pre dist]
  obtain fx' out' where
    res: "Parallel_loop disable (tl picks) (remove_nth k ?pending) (out[i := g i])
            (tqdm_update disable (invoke (item_arg t) fx)) = (fx', Inr out')"
    and len: "length out' = length out"
    and nth: "\<forall>j<length out. out' ! j =
                (if j \<in> fst ` set (remove_nth k ?pending) then g j else out[i := g i] ! j)"
    and tk: "ticks fx' = ticks (tqdm_update disable (invoke (item_arg t) fx))
                + (if disable then 0 else length (remove_nth k ?pending))"
    by auto
  have lenr: "length (remove_nth k ?pending) = length ps"
    using k by (simp add: remove_nth_def)
  have eq: "Parallel_loop disable picks ?pending out fx = (fx', Inr out')"
  proof -
    have kd: "next_pick picks (Suc (length ps)) = k" by (simp add: k_def)
    show ?thesis using res run it by (simp add: kd)
  qed
  have nth': "\<forall>j<length out. out' ! j = (if j \<in> fst ` set ?pending then g j else out ! j)"
  proof (intro allI impI)
    fix j assume j: "j < length out"
    show "out' ! j = (if j \<in> fst ` set ?pending then g j else out ! j)"
    proof (cases "j = i")
      case True
      then show ?thesis using nth j notin i mem by (auto simp: image_iff)
    next
      case False
      then show ?thesis using nth j setp by (auto simp: image_iff)
    qed
  qed
  have tk': "ticks fx' = ticks fx + (if disable then 0 else length ?pending)"
    using tk lenr by (simp add: tqdm_update_def invoke_def)
  show ?case using eq len nth' tk' by blast
qed

lemma Parallel_loop_failure:
  "\<exists>i t. (i, t) \<in> set pending \<and> isl (run_task t) \<Longrightarrow>
   isl (snd (Parallel_loop disable picks pending out fx))"
proof (induction disable picks pending out fx rule: Parallel_loop.induct)
  case (1 disable picks out fx)
  then show ?case by simp
next
  case (2 disable picks p ps out fx)
  let ?pending = "p # ps"
  define k where "k = next_pick picks (length ?pending)"
  obtain i t where it: "?pending ! k = (i, t)" by (cases "?pending ! k")
  have k: "k < length ?pending" unfolding k_def by (rule next_pick_less) simp
  have kd: "next_pick picks (Suc (length ps)) = k" by (simp add: k_def)
  have setp: "set ?pending = insert (i, t) (set (remove_nth k ?pending))"
    using set_remove_nth [OF k] it by simp
  show ?case
  proof (cases "run_task t")
    case (Inl e)
    then show ?thesis using it by (simp add: kd)
  next
    case (Inr v)
    from "2.prems" obtain i' t' where m: "(i', t') \<in> set ?pending" and f: "isl (run_task t')"
      by blast
    have "t' \<noteq> t" using f Inr by auto
    then have "(i', t') \<in> set (remove_nth k ?pending)" using m setp by blast
    then have "\<exists>i t. (i, t) \<in> set (remove_nth k ?pending) \<and> isl (run_task t)"
      using f by blast
    from "2.IH" [OF k_def it [symmetric] refl Inr this]
    show ?thesis using it Inr by (simp add: kd)
  qed
qed

lemma Parallel_success:
  assumes "\<forall>item\<in>set array. meth self item kwargs = Inr (f item)"
  shows "\<exists>fx'. Parallel pool_size disable picks
            (map (\<lambda>item. delayed meth self item kwargs) array) fx = (fx', Inr (map f array))
          \<and> ticks fx' = ticks fx + (if disable then 0 else length array)"
proof -
  let ?tasks = "map (\<lambda>item. delayed meth self item kwargs) array"
  let ?out = "replicate (length ?tasks) PyNone"
  let ?g = "\<lambda>i. f (array ! i)"
  have pre: "\<forall>i t. (i, t) \<in> set (enumerate 0 ?tasks) \<longrightarrow>
               i < length ?out \<and> run_task t = Inr (?g i)"
    using assms by (auto simp: in_set_enumerate_eq run_task_def delayed_def)
  have dist: "distinct (map fst (enumerate 0 ?tasks))"
    by simp
  from Parallel_loop_success [OF pre dist, of disable picks fx]
  obtain fx' out' where
    res: "Parallel_loop disable picks (enumerate 0 ?tasks) ?out fx = (fx', Inr out')"
    and len: "length out' = length ?out"
    and nth: "\<forall>j<length ?out. out' ! j =
                (if j \<in> fst ` set (enumerate 0 ?tasks) then ?g j else ?out ! j)"
    and tk: "ticks fx' = ticks fx + (if disable then 0 else length (enumerate 0 ?tasks))"
    by blast
  have "out' = map f array"
  proof (rule nth_equalityI)
    show "length out' = length (map f array)" using len by simp
  next
    fix j assume "j < length out'"
    then have j: "j < length array" using len by simp
    then have "j \<in> fst ` set (enumerate 0 ?tasks)"
      by (simp add: image_iff in_set_enumerate_eq Bex_def)
    then show "out' ! j = map f array ! j" using nth j by simp
  qed
  then show ?thesis using res tk by (simp add: Parallel_def)
qed

lemma Parallel_failure:
  assumes "\<exists>item\<in>set array. isl (meth self item kwargs)"
  shows "isl (snd (Parallel pool_size disable picks
            (map (\<lambda>item. delayed meth self item kwargs) array) fx))"
proof -
  let ?tasks = "map (\<lambda>item. delayed meth self item kwargs) array"
  from assms obtain item where "item \<in> set array" "isl (meth self item kwargs)" by blast
  then obtain j where j: "j < length array" "isl (meth self (array ! j) kwargs)"
    by (metis in_set_conv_nth)
  then have "(j, ?tasks ! j) \<in> set (enumerate 0 ?tasks) \<and> isl (run_task (?tasks ! j))"
    by (simp add: in_set_enumerate_eq run_task_def delayed_def)
  then have "\<exists>i t. (i, t) \<in> set (enumerate 0 ?tasks) \<and> isl (run_task t)" by blast
  then show ?thesis unfolding Parallel_def by (rule Parallel_loop_failure)
qed

lemma sequential_loop_failure_isl:
  "\<exists>item\<in>set items. isl (meth self item kwargs) \<Longrightarrow>
   isl (snd (sequential_loop meth self kwargs disable items acc fx))"
  by (induction items arbitrary: acc fx) (auto split: sum.splits)

section \<open>Properties of the wrapper\<close>

lemma execute_success:
  assumes "\<forall>item\<in>set array. meth self item kwargs = Inr (f item)"
  shows "snd (execute meth picks self array kwargs) = Inr (map f array)"
    and "ticks (fst (execute meth picks self array kwargs)) =
           (if py_eq_int (verbose self) 0 then 0 else length array)"
proof -
  show "snd (execute meth picks self array kwargs) = Inr (map f array)"
  proof (cases "py_eq_int (n_jobs self) 1")
    case True
    then show ?thesis
      by (simp add: execute_def sequential_loop_success [where meth=meth and self=self and kwargs=kwargs and f=f, OF assms])
  next
    case False
    from Parallel_success [where meth=meth and self=self and kwargs=kwargs and f=f and pool_size="n_jobs self"
        and disable="py_eq_int (verbose self) 0" and picks=picks and fx=no_effects, OF assms]
    show ?thesis using False by (auto simp: execute_def)
  qed
  show "ticks (fst (execute meth picks self array kwargs)) =
           (if py_eq_int (verbose self) 0 then 0 else length array)"
  proof (cases "py_eq_int (n_jobs self) 1")
    case True
    then show ?thesis
      by (simp add: execute_def sequential_loop_success [where meth=meth and self=self and kwargs=kwargs and f=f, OF assms] no_effects_def)
  next
    case False
    from Parallel_success [where meth=meth and self=self and kwargs=kwargs and f=f and pool_size="n_jobs self"
        and disable="py_eq_int (verbose self) 0" and picks=picks and fx=no_effects, OF assms]
    show ?thesis using False by (auto simp: execute_def no_effects_def)
  qed
qed

lemma execute_failure:
  assumes "\<exists>item\<in>set array. isl (meth self item kwargs)"
  shows "isl (snd (execute meth picks self array kwargs))"
proof (cases "py_eq_int (n_jobs self) 1")
  case True
  then show ?thesis
    using sequential_loop_failure_isl [where meth=meth and self=self and kwargs=kwargs, OF assms] by (simp add: execute_def)
next
  case False
  then show ?thesis
    using Parallel_failure [where meth=meth and self=self and kwargs=kwargs, OF assms] by (simp add: execute_def)
qed

lemma wrapper_fst: "fst (wrapper meth output_format picks self array kwargs) =
    fst (execute meth picks self array kwargs)"
  by (cases "execute meth picks self array kwargs") (simp add: wrapper_def split: sum.splits)

lemma wrapper_success:
  assumes "\<forall>item\<in>set array. meth self item kwargs = Inr (f item)"
  shows "snd (wrapper meth output_format picks self array kwargs) =
           assemble output_format array (map f array)"
  using execute_success(1) [where meth=meth and self=self and kwargs=kwargs and f=f and picks=picks, OF assms]
  by (cases "execute meth picks self array kwargs") (simp add: wrapper_def)

lemma wrapper_failure:
  assumes "\<exists>item\<in>set array. isl (meth self item kwargs)"
  shows "isl (snd (wrapper meth output_format picks self array kwargs))"
  using execute_failure [where meth=meth and self=self and kwargs=kwargs and picks=picks, OF assms]
  by (cases "execute meth picks self array kwargs") (auto simp: wrapper_def split: sum.splits)

lemma all_succeed_or_some_fails:
  "(\<forall>item\<in>set array. meth self item kwargs = Inr (projr (meth self item kwargs)))
   \<or> (\<exists>item\<in>set array. isl (meth self item kwargs))"
  by (metis sum.collapse(2))

section \<open>Properties of the assembly\<close>

lemma foldl_append_row:
  "foldl (\<lambda>acc x. acc @ [g x]) new_data xs = new_data @ map g xs"
  by (induction xs arbitrary: new_data) simp_all

lemma py_iter_Inl: "py_iter v = Inl e \<Longrightarrow> e = TypeError"
  by (cases v) simp_all

lemma dataframe_loop_success:
  "\<forall>item\<in>set array. py_iter (f item) = Inr (recs item) \<Longrightarrow>
   dataframe_loop (zip array (map f array)) new_data =
     Inr (new_data @ concat (map (\<lambda>item. map (\<lambda>x. \<lparr> object = item, data = x \<rparr>) (recs item)) array))"
  by (induction array arbitrary: new_data) (simp_all add: foldl_append_row)

lemma dataframe_loop_failure:
  "\<exists>item\<in>set array. py_iter (f item) = Inl TypeError \<Longrightarrow>
   dataframe_loop (zip array (map f array)) new_data = Inl TypeError"
proof (induction array arbitrary: new_data)
  case Nil
  then show ?case by simp
next
  case (Cons a array)
  show ?case
  proof (cases "py_iter (f a)")
    case (Inl e)
    then show ?thesis using py_iter_Inl [OF Inl] by simp
  next
    case (Inr xs)
    then have "\<exists>item\<in>set array. py_iter (f item) = Inl TypeError"
      using Cons.prems by auto
    then show ?thesis using Inr Cons.IH by simp
  qed
qed

lemma dict_comprehension_success:
  "\<forall>p\<in>set kvs. hashable (fst p) \<Longrightarrow> distinct (map fst d) \<Longrightarrow>
   \<exists>d'. dict_comprehension kvs d = Inr d' \<and> distinct (map fst d')
        \<and> map_of d' = map_of d ++ map_of (rev kvs)"
proof (induction kvs arbitrary: d)
  case Nil
  then show ?case by simp
next
  case (Cons kv kvs)
  obtain k v where kv: "kv = (k, v)" by (cases kv)
  have h: "hashable k" using Cons.prems(1) kv by simp
  have "\<forall>p\<in>set kvs. hashable (fst p)" using Cons.prems(1) by simp
  moreover have "distinct (map fst (AList.update k v d))"
    using Cons.prems(2) by (simp add: distinct_update)
  ultimately obtain d' where d': "dict_comprehension kvs (AList.update k v d) = Inr d'"
      "distinct (map fst d')" "map_of d' = map_of (AList.update k v d) ++ map_of (rev kvs)"
    using Cons.IH by blast
  have "map_of d' = map_of d ++ map_of (rev (kv # kvs))"
    using d'(3) by (simp add: kv update_conv' map_add_upd_left)
  then show ?case using d' h kv by simp
qed

section \<open>The claims\<close>

subsection \<open>C1: the list shape is aligned with the input\<close>

text \<open>
  Claim C1. For every input sequence and every worker count, 1 (the loop) or more (the
  pool, under every interleaving \<open>picks\<close>), the wrapper with \<^verbatim>\<open>output_format="list"\<close>
  returns a list as long as the input whose \<open>i\<close>-th element is the result of the wrapped
  method on the \<open>i\<close>-th item. The per-item results the claim speaks of are written
  \<open>f item\<close>: the method returns on every item of the input.
\<close>

theorem list_output_aligned:
  assumes "n_jobs self = ConfInt n" and "1 \<le> n"
    and "\<forall>item\<in>set array. meth self item kwargs = Inr (f item)"
  shows "\<exists>out. snd (wrapper meth ''list'' picks self array kwargs) = Inr (ListOut out)
           \<and> length out = length array
           \<and> (\<forall>i<length array. out ! i = f (array ! i))"
proof -
  have "snd (wrapper meth ''list'' picks self array kwargs) = Inr (ListOut (map f array))"
    using wrapper_success [where meth=meth and self=self and kwargs=kwargs and f=f, OF assms(3)]
    by (simp add: assemble_def)
  then show ?thesis by simp
qed

text \<open>The theorem at two nodes, in a pool that completes the second task first.\<close>

theorem list_output_aligned_witness:
  "get_leaves pool_client (PyInt 1) Map.empty = Inr (PyList [PyInt 2, PyInt 3])
   \<and> get_leaves pool_client (PyInt 2) Map.empty = Inr (PyList [PyInt 4, PyInt 5])
   \<and> snd (wrapper get_leaves ''list'' [1] pool_client [PyInt 1, PyInt 2] Map.empty) =
       Inr (ListOut [PyList [PyInt 2, PyInt 3], PyList [PyInt 4, PyInt 5]])"
proof -
  let ?f = "\<lambda>item. case item of PyInt k \<Rightarrow> PyList [PyInt (2 * k), PyInt (2 * k + 1)] | _ \<Rightarrow> PyNone"
  have ok: "\<forall>item\<in>set [PyInt 1, PyInt 2]. get_leaves pool_client item Map.empty = Inr (?f item)"
    by (simp add: get_leaves_def)
  have p: "n_jobs pool_client = ConfInt 4" and four: "(1::int) \<le> 4"
    by (simp_all add: pool_client_def)
  show ?thesis
    using list_output_aligned [where meth=get_leaves and self=pool_client
      and kwargs=Map.empty and f="?f" and picks="[1]", OF p four ok]
    by (simp add: run_defs get_leaves_def pool_client_def)
qed

subsection \<open>C2: duplicate items and the dict shape\<close>

text \<open>
  The spec's sentence for C2 reads: on an input with a duplicate item the dict shape
  fails with \<^verbatim>\<open>DuplicateKeyError\<close>. The dict comprehension of line 88 has no such
  check: on \<open>[7, 7]\<close> the wrapper returns a dict with the single key 7.
\<close>

theorem dict_duplicates_counterexample:
  "snd (wrapper get_leaves ''dict'' [] sequential_client [PyInt 7, PyInt 7] Map.empty) =
     Inr (DictOut [(PyInt 7, PyList [PyInt 14, PyInt 15])])
   \<and> snd (wrapper get_leaves ''dict'' [1] pool_client [PyInt 7, PyInt 7] Map.empty) =
     Inr (DictOut [(PyInt 7, PyList [PyInt 14, PyInt 15])])"
  by (simp add: run_defs get_leaves_def sequential_client_def pool_client_def)

text \<open>
  Claim C2, as the code has it. On an input with a duplicate item, all items hashable
  and the method returning on every item, the wrapper with \<^verbatim>\<open>output_format="dict"\<close>
  raises nothing: it returns a dict with one entry for each distinct item, bound to the
  result for that item, so with fewer entries than the input has items.
\<close>

theorem dict_duplicates_collapse:
  assumes "n_jobs self = ConfInt n" and "1 \<le> n"
    and "\<not> distinct array"
    and "\<forall>item\<in>set array. hashable item \<and> meth self item kwargs = Inr (f item)"
  shows "\<exists>d. snd (wrapper meth ''dict'' picks self array kwargs) = Inr (DictOut d)
           \<and> distinct (map fst d)
           \<and> map_of d = (\<lambda>item. if item \<in> set array then Some (f item) else None)
           \<and> length d < length array"
proof -
  have ok: "\<forall>item\<in>set array. meth self item kwargs = Inr (f item)"
    using assms(4) by simp
  have h: "\<forall>p\<in>set (zip array (map f array)). hashable (fst p)"
    using assms(4) by (auto dest: set_zip_leftD)
  obtain d where d: "dict_comprehension (zip array (map f array)) [] = Inr d"
      "distinct (map fst d)" "map_of d = map_of [] ++ map_of (rev (zip array (map f array)))"
    using dict_comprehension_success [OF h, of "[]"] by auto
  have "rev (zip array (map f array)) = zip (rev array) (map f (rev array))"
    by (simp add: zip_rev rev_map [symmetric])
  then have m: "map_of d = (\<lambda>item. if item \<in> set array then Some (f item) else None)"
    using d(3) by (simp add: map_of_zip_map)
  have "fst ` set d = dom (map_of d)" by (simp add: dom_map_of_conv_image_fst)
  also have "\<dots> = set array" by (auto simp: m dom_def)
  finally have "set (map fst d) = set array" by simp
  then have "length d = card (set array)"
    using d(2) by (metis distinct_card length_map)
  moreover have "card (set array) < length array"
    using assms(3) by (metis card_distinct card_length le_neq_implies_less)
  ultimately have l: "length d < length array" by simp
  have "snd (wrapper meth ''dict'' picks self array kwargs) = Inr (DictOut d)"
    using wrapper_success [where meth=meth and self=self and kwargs=kwargs and f=f, OF ok] d(1)
    by (simp add: assemble_def)
  then show ?thesis using d(2) m l by blast
qed

text \<open>The theorem on \<open>[7, 8, 7]\<close>: two entries, in the order of first occurrence.\<close>

theorem dict_duplicates_collapse_witness:
  "\<not> distinct [PyInt 7, PyInt 8, PyInt 7]
   \<and> snd (wrapper get_leaves ''dict'' [2, 1] pool_client [PyInt 7, PyInt 8, PyInt 7] Map.empty) =
       Inr (DictOut [(PyInt 7, PyList [PyInt 14, PyInt 15]), (PyInt 8, PyList [PyInt 16, PyInt 17])])"
proof -
  let ?f = "\<lambda>item. case item of PyInt k \<Rightarrow> PyList [PyInt (2 * k), PyInt (2 * k + 1)] | _ \<Rightarrow> PyNone"
  have ok: "\<forall>item\<in>set [PyInt 7, PyInt 8, PyInt 7].
              hashable item \<and> get_leaves pool_client item Map.empty = Inr (?f item)"
    by (simp add: get_leaves_def)
  have dup: "\<not> distinct [PyInt 7, PyInt 8, PyInt 7]" by simp
  have p: "n_jobs pool_client = ConfInt 4" and four: "(1::int) \<le> 4"
    by (simp_all add: pool_client_def)
  show ?thesis
    using dict_duplicates_collapse [where meth=get_leaves and self=pool_client
      and kwargs=Map.empty and f="?f" and picks="[2, 1]", OF p four dup ok]
    by (simp add: run_defs get_leaves_def pool_client_def)
qed

subsection \<open>C3: the table keeps the blocks in input order\<close>

text \<open>
  Claim C3. When every per-item result \<open>f item\<close> is iterable, \<open>records item\<close> being
  what iterating it yields, the wrapper with \<^verbatim>\<open>output_format="dataframe"\<close> returns the rows
  \<^verbatim>\<open>{"object": item, "data": x}\<close> block by block: all records of the first item in
  their own order, then all of the second, and so on, for every worker count and every
  interleaving of the pool.
\<close>

theorem dataframe_block_order:
  assumes "n_jobs self = ConfInt n" and "1 \<le> n"
    and "\<forall>item\<in>set array. meth self item kwargs = Inr (f item)
                            \<and> py_iter (f item) = Inr (records item)"
  shows "snd (wrapper meth ''dataframe'' picks self array kwargs) =
           Inr (DataFrameOut
             (concat (map (\<lambda>item. map (\<lambda>x. \<lparr> object = item, data = x \<rparr>) (records item)) array)))"
proof -
  have ok: "\<forall>item\<in>set array. meth self item kwargs = Inr (f item)"
    and it: "\<forall>item\<in>set array. py_iter (f item) = Inr (records item)"
    using assms(3) by simp_all
  show ?thesis
    using wrapper_success [where meth=meth and self=self and kwargs=kwargs and f=f, OF ok]
      dataframe_loop_success [where f=f and recs=records, OF it]
    by (simp add: assemble_def)
qed

text \<open>
  The theorem in a pool that runs the second task first: the calls are in completion
  order, the rows in input order.
\<close>

theorem dataframe_block_order_witness:
  "snd (wrapper get_leaves ''dataframe'' [1, 0] pool_client [PyInt 1, PyInt 2] Map.empty) =
     Inr (DataFrameOut
       [\<lparr> object = PyInt 1, data = PyInt 2 \<rparr>, \<lparr> object = PyInt 1, data = PyInt 3 \<rparr>,
        \<lparr> object = PyInt 2, data = PyInt 4 \<rparr>, \<lparr> object = PyInt 2, data = PyInt 5 \<rparr>])
   \<and> fst (wrapper get_leaves ''dataframe'' [1, 0] pool_client [PyInt 1, PyInt 2] Map.empty) =
     \<lparr> calls = [PyInt 2, PyInt 1], ticks = 2 \<rparr>"
proof -
  let ?f = "\<lambda>item. case item of PyInt k \<Rightarrow> PyList [PyInt (2 * k), PyInt (2 * k + 1)] | _ \<Rightarrow> PyNone"
  let ?r = "\<lambda>item. case item of PyInt k \<Rightarrow> [PyInt (2 * k), PyInt (2 * k + 1)] | _ \<Rightarrow> []"
  have ok: "\<forall>item\<in>set [PyInt 1, PyInt 2]. get_leaves pool_client item Map.empty = Inr (?f item)
              \<and> py_iter (?f item) = Inr (?r item)"
    by (simp add: get_leaves_def)
  have p: "n_jobs pool_client = ConfInt 4" and four: "(1::int) \<le> 4"
    by (simp_all add: pool_client_def)
  show ?thesis
    using dataframe_block_order [where meth=get_leaves and self=pool_client
      and kwargs=Map.empty and f="?f" and records="?r" and picks="[1, 0]", OF p four ok]
    by (simp add: run_defs get_leaves_def pool_client_def)
qed

subsection \<open>C4: a result that is not iterable\<close>

text \<open>
  The spec's sentence for C4 reads: whenever some per-item result is not iterable, the
  table shape fails with \<^verbatim>\<open>InvalidResultShapeError\<close>. On the input \<open>[1, 3]\<close> the
  result for node 1 is the integer 2, which is not iterable, and the method raises on
  node 3: the batch fails with the method's exception, in the loop and in the pool, and
  the rows are never built. On \<open>[1]\<close> alone the rows are built and the batch fails with
  the interpreter's \<^verbatim>\<open>TypeError\<close>.
\<close>

theorem dataframe_not_iterable_counterexample:
  "get_level sequential_client (PyInt 1) Map.empty = Inr (PyInt 2)
   \<and> py_iter (PyInt 2) = Inl TypeError
   \<and> snd (wrapper get_level ''dataframe'' [] sequential_client [PyInt 1, PyInt 3] Map.empty) =
       Inl (Raised ''node 3 not found'')
   \<and> snd (wrapper get_level ''dataframe'' [] pool_client [PyInt 1, PyInt 3] Map.empty) =
       Inl (Raised ''node 3 not found'')
   \<and> snd (wrapper get_level ''dataframe'' [] sequential_client [PyInt 1] Map.empty) =
       Inl TypeError"
  by (simp add: run_defs get_level_def sequential_client_def pool_client_def)

text \<open>
  Claim C4, as the code has it. If the wrapped method returns on every item and some
  per-item result is not iterable, the wrapper with \<^verbatim>\<open>output_format="dataframe"\<close>
  fails, for every worker count, with the built-in \<^verbatim>\<open>TypeError\<close> that the
  statement \<^verbatim>\<open>for x in data\<close> raises; client.py defines no exception class of its
  own.
\<close>

theorem dataframe_not_iterable:
  assumes "n_jobs self = ConfInt n" and "1 \<le> n"
    and "\<forall>item\<in>set array. meth self item kwargs = Inr (f item)"
    and "\<exists>item\<in>set array. py_iter (f item) = Inl TypeError"
  shows "snd (wrapper meth ''dataframe'' picks self array kwargs) = Inl TypeError"
  using wrapper_success [where meth=meth and self=self and kwargs=kwargs and f=f, OF assms(3)]
    dataframe_loop_failure [where f=f, OF assms(4)]
  by (simp add: assemble_def)

text \<open>The theorem at two nodes whose levels are integers.\<close>

theorem dataframe_not_iterable_witness:
  "get_level pool_client (PyInt 1) Map.empty = Inr (PyInt 2)
   \<and> get_level pool_client (PyInt 2) Map.empty = Inr (PyInt 2)
   \<and> py_iter (PyInt 2) = Inl TypeError
   \<and> snd (wrapper get_level ''dataframe'' [1] pool_client [PyInt 1, PyInt 2] Map.empty) =
       Inl TypeError"
proof -
  have ok: "\<forall>item\<in>set [PyInt 1, PyInt 2]. get_level pool_client item Map.empty = Inr ((\<lambda>_. PyInt 2) item)"
    by (simp add: get_level_def)
  have bad: "\<exists>item\<in>set [PyInt 1, PyInt 2]. py_iter ((\<lambda>_. PyInt 2) item) = Inl TypeError"
    by auto
  have p: "n_jobs pool_client = ConfInt 4" and four: "(1::int) \<le> 4"
    by (simp_all add: pool_client_def)
  show ?thesis
    using dataframe_not_iterable [where meth=get_level and self=pool_client
      and kwargs=Map.empty and f="\<lambda>_. PyInt 2" and picks="[1]", OF p four ok bad]
    by (simp add: run_defs get_level_def pool_client_def)
qed

subsection \<open>C5: the empty input\<close>

text \<open>
  Claim C5. On the empty input the wrapper returns the empty list, the empty dict or the
  empty data frame, according to the output format; it raises nothing, invokes the
  method on nothing and counts no tick, for every worker count.
\<close>

theorem empty_input:
  assumes "n_jobs self = ConfInt n" and "1 \<le> n"
  shows "wrapper meth ''list'' picks self [] kwargs = (no_effects, Inr (ListOut []))
       \<and> wrapper meth ''dict'' picks self [] kwargs = (no_effects, Inr (DictOut []))
       \<and> wrapper meth ''dataframe'' picks self [] kwargs = (no_effects, Inr (DataFrameOut []))"
  by (simp add: wrapper_def execute_def Parallel_def assemble_def enumerate_eq_zip)

text \<open>The theorem with a method that would raise on any item, in both branches.\<close>

theorem empty_input_witness:
  "wrapper unavailable ''list'' [2] sequential_client [] Map.empty = (\<lparr> calls = [], ticks = 0 \<rparr>, Inr (ListOut []))
   \<and> wrapper unavailable ''dict'' [2] sequential_client [] Map.empty = (\<lparr> calls = [], ticks = 0 \<rparr>, Inr (DictOut []))
   \<and> wrapper unavailable ''dataframe'' [2] sequential_client [] Map.empty = (\<lparr> calls = [], ticks = 0 \<rparr>, Inr (DataFrameOut []))
   \<and> wrapper unavailable ''list'' [2] pool_client [] Map.empty = (\<lparr> calls = [], ticks = 0 \<rparr>, Inr (ListOut []))
   \<and> wrapper unavailable ''dict'' [2] pool_client [] Map.empty = (\<lparr> calls = [], ticks = 0 \<rparr>, Inr (DictOut []))
   \<and> wrapper unavailable ''dataframe'' [2] pool_client [] Map.empty = (\<lparr> calls = [], ticks = 0 \<rparr>, Inr (DataFrameOut []))"
proof -
  have s: "n_jobs sequential_client = ConfInt 1" and p: "n_jobs pool_client = ConfInt 4"
    and one: "(1::int) \<le> 1" and four: "(1::int) \<le> 4"
    by (simp_all add: sequential_client_def pool_client_def)
  show ?thesis
    using empty_input [where self=sequential_client and meth=unavailable and picks="[2]"
        and kwargs=Map.empty, OF s one]
      empty_input [where self=pool_client and meth=unavailable and picks="[2]"
        and kwargs=Map.empty, OF p four]
    by (simp add: no_effects_def)
qed

subsection \<open>C6: a failure in the sequential branch\<close>

text \<open>
  The spec's sentence for C6 ends: the batch raises \<^verbatim>\<open>TaskFailure\<close> carrying the
  originating item and the underlying error. The loop of lines 75 and 76 has no
  \<^verbatim>\<open>try\<close>: what leaves the wrapper is the method's own exception, the same
  value whether the failing item is 1 or 2, so it does not carry the item.
\<close>

theorem sequential_failure_counterexample:
  "unavailable sequential_client (PyInt 1) Map.empty = Inl (Raised ''service unavailable'')
   \<and> snd (wrapper unavailable ''list'' [] sequential_client [PyInt 1] Map.empty) =
       Inl (Raised ''service unavailable'')
   \<and> snd (wrapper unavailable ''list'' [] sequential_client [PyInt 2] Map.empty) =
       Inl (Raised ''service unavailable'')"
  by (simp add: run_defs unavailable_def sequential_client_def)

text \<open>
  Claim C6, as the code has it. With \<^verbatim>\<open>n_jobs == 1\<close>, if the method returns on the
  items \<open>before\<close> and raises \<open>e\<close> on the next \<open>item\<close>, the wrapper invokes the method
  on exactly \<open>before @ [item]\<close>, in input order, never on \<open>rest\<close>; the progress bar has
  counted the items of \<open>before\<close>; and the wrapper raises \<open>e\<close> itself, unwrapped, for
  every output format: no partial aggregate is returned.
\<close>

theorem sequential_fail_fast:
  assumes "n_jobs self = ConfInt 1"
    and "\<forall>item\<in>set before. meth self item kwargs = Inr (f item)"
    and "meth self item kwargs = Inl e"
  shows "wrapper meth output_format picks self (before @ item # rest) kwargs =
           (\<lparr> calls = before @ [item],
               ticks = (if py_eq_int (verbose self) 0 then 0 else length before) \<rparr>,
            Inl e)"
  using assms(1)
    sequential_loop_failure [where meth=meth and self=self and kwargs=kwargs and f=f
      and pre=before and x=item and e=e and post=rest and acc="[]" and fx=no_effects
      and disable="py_eq_int (verbose self) 0", OF assms(2) assms(3)]
  by (simp add: wrapper_def execute_def no_effects_def)

text \<open>The theorem on five nodes, the method raising on the third.\<close>

theorem sequential_fail_fast_witness:
  "get_level sequential_client (PyInt 1) Map.empty = Inr (PyInt 2)
   \<and> get_level sequential_client (PyInt 2) Map.empty = Inr (PyInt 2)
   \<and> get_level sequential_client (PyInt 3) Map.empty = Inl (Raised ''node 3 not found'')
   \<and> wrapper get_level ''list'' [] sequential_client
         [PyInt 1, PyInt 2, PyInt 3, PyInt 4, PyInt 5] Map.empty =
       (\<lparr> calls = [PyInt 1, PyInt 2, PyInt 3], ticks = 2 \<rparr>, Inl (Raised ''node 3 not found''))"
proof -
  have s: "n_jobs sequential_client = ConfInt 1"
    by (simp add: sequential_client_def)
  have ok: "\<forall>item\<in>set [PyInt 1, PyInt 2].
              get_level sequential_client item Map.empty = Inr ((\<lambda>_. PyInt 2) item)"
    by (simp add: get_level_def)
  have bad: "get_level sequential_client (PyInt 3) Map.empty = Inl (Raised ''node 3 not found'')"
    by (simp add: get_level_def)
  show ?thesis
    using sequential_fail_fast [where meth=get_level and self=sequential_client
      and kwargs=Map.empty and f="\<lambda>_. PyInt 2" and before="[PyInt 1, PyInt 2]"
      and item="PyInt 3" and rest="[PyInt 4, PyInt 5]" and picks="[]"
      and output_format="''list''", OF s ok bad]
    by (simp add: get_level_def sequential_client_def)
qed

subsection \<open>C7: the progress ticks\<close>

text \<open>
  Claim C7. Whenever the wrapper returns, the progress bar has received one tick for
  each item of the input when it is enabled (\<^verbatim>\<open>self.verbose == 0\<close> is false), and
  none when it is disabled, in the loop and in the pool.
\<close>

theorem progress_ticks:
  assumes "n_jobs self = ConfInt n" and "1 \<le> n"
    and "snd (wrapper meth output_format picks self array kwargs) = Inr out"
  shows "ticks (fst (wrapper meth output_format picks self array kwargs)) =
           (if py_eq_int (verbose self) 0 then 0 else length array)"
proof -
  let ?f = "\<lambda>item. projr (meth self item kwargs)"
  have "\<not> (\<exists>item\<in>set array. isl (meth self item kwargs))"
    using wrapper_failure [where meth=meth and self=self and kwargs=kwargs
      and array=array and output_format=output_format and picks=picks] assms(3)
    by auto
  then have ok: "\<forall>item\<in>set array. meth self item kwargs = Inr (?f item)"
    using all_succeed_or_some_fails [of array meth self kwargs] by blast
  show ?thesis
    using execute_success(2) [where meth=meth and self=self and kwargs=kwargs
      and f="?f" and picks=picks, OF ok]
    by (simp add: wrapper_fst)
qed

text \<open>The theorem at three nodes: the loop, the pool, and the pool with the bar disabled.\<close>

theorem progress_ticks_witness:
  "snd (wrapper get_leaves ''list'' [] sequential_client [PyInt 1, PyInt 2, PyInt 3] Map.empty) =
     Inr (ListOut [PyList [PyInt 2, PyInt 3], PyList [PyInt 4, PyInt 5], PyList [PyInt 6, PyInt 7]])
   \<and> ticks (fst (wrapper get_leaves ''list'' [] sequential_client [PyInt 1, PyInt 2, PyInt 3] Map.empty)) = 3
   \<and> ticks (fst (wrapper get_leaves ''list'' [2, 0] pool_client [PyInt 1, PyInt 2, PyInt 3] Map.empty)) = 3
   \<and> ticks (fst (wrapper get_leaves ''list'' [2, 0] quiet_pool_client [PyInt 1, PyInt 2, PyInt 3] Map.empty)) = 0"
proof -
  let ?out = "ListOut [PyList [PyInt 2, PyInt 3], PyList [PyInt 4, PyInt 5], PyList [PyInt 6, PyInt 7]]"
  have s: "n_jobs sequential_client = ConfInt 1" and p: "n_jobs pool_client = ConfInt 4"
    and q: "n_jobs quiet_pool_client = ConfInt 4"
    and one: "(1::int) \<le> 1" and four: "(1::int) \<le> 4"
    by (simp_all add: sequential_client_def pool_client_def quiet_pool_client_def)
  have rs: "snd (wrapper get_leaves ''list'' [] sequential_client [PyInt 1, PyInt 2, PyInt 3] Map.empty) = Inr ?out"
    and rp: "snd (wrapper get_leaves ''list'' [2, 0] pool_client [PyInt 1, PyInt 2, PyInt 3] Map.empty) = Inr ?out"
    and rq: "snd (wrapper get_leaves ''list'' [2, 0] quiet_pool_client [PyInt 1, PyInt 2, PyInt 3] Map.empty) = Inr ?out"
    by (simp_all add: run_defs get_leaves_def sequential_client_def quiet_pool_client_def pool_client_def)
  show ?thesis
    using rs progress_ticks [OF s one rs] progress_ticks [OF p four rp] progress_ticks [OF q four rq]
    by (simp add: sequential_client_def pool_client_def quiet_pool_client_def)
qed

subsection \<open>C8: the pool and the loop return the same aggregate\<close>

text \<open>
  Claim C8. The wrapped method of the model is a function: deterministic and free of
  side effects. When it does not read the worker count from \<^verbatim>\<open>self\<close>, the wrapper
  with a pool of more than one worker, under any interleaving, returns an aggregate
  exactly when the wrapper with \<^verbatim>\<open>n_jobs == 1\<close> does, and the two aggregates are
  equal, in values and in order, for every output format.
\<close>

theorem pool_matches_sequential:
  assumes "n_jobs self = ConfInt n" and "1 < n"
    and "\<forall>item\<in>set array.
           meth (self\<lparr> n_jobs := ConfInt 1 \<rparr>) item kwargs = meth self item kwargs"
  shows "(snd (wrapper meth output_format picks self array kwargs) = Inr out) =
         (snd (wrapper meth output_format picks' (self\<lparr> n_jobs := ConfInt 1 \<rparr>) array kwargs) = Inr out)"
proof -
  let ?seq = "self\<lparr> n_jobs := ConfInt 1 \<rparr>"
  let ?f = "\<lambda>item. projr (meth self item kwargs)"
  show ?thesis
  proof (cases "\<exists>item\<in>set array. isl (meth self item kwargs)")
    case True
    then have "\<exists>item\<in>set array. isl (meth ?seq item kwargs)"
      using assms(3) by auto
    then have "isl (snd (wrapper meth output_format picks' ?seq array kwargs))"
      by (rule wrapper_failure [where meth=meth and self="?seq" and kwargs=kwargs])
    moreover have "isl (snd (wrapper meth output_format picks self array kwargs))"
      using True by (rule wrapper_failure [where meth=meth and self=self and kwargs=kwargs])
    ultimately show ?thesis by auto
  next
    case False
    then have ok: "\<forall>item\<in>set array. meth self item kwargs = Inr (?f item)"
      using all_succeed_or_some_fails [of array meth self kwargs] by blast
    then have ok': "\<forall>item\<in>set array. meth ?seq item kwargs = Inr (?f item)"
      using assms(3) by simp
    have "snd (wrapper meth output_format picks self array kwargs) =
            assemble output_format array (map ?f array)"
      using ok by (rule wrapper_success [where meth=meth and self=self and kwargs=kwargs])
    moreover have "snd (wrapper meth output_format picks' ?seq array kwargs) =
            assemble output_format array (map ?f array)"
      using ok' by (rule wrapper_success [where meth=meth and self="?seq" and kwargs=kwargs])
    ultimately show ?thesis by simp
  qed
qed

text \<open>The theorem for the table of two nodes: the loop's result is obtained from the pool's.\<close>

theorem pool_matches_sequential_witness:
  "snd (wrapper get_leaves ''dataframe'' [] (pool_client\<lparr> n_jobs := ConfInt 1 \<rparr>)
         [PyInt 1, PyInt 2] Map.empty) =
     Inr (DataFrameOut
       [\<lparr> object = PyInt 1, data = PyInt 2 \<rparr>, \<lparr> object = PyInt 1, data = PyInt 3 \<rparr>,
        \<lparr> object = PyInt 2, data = PyInt 4 \<rparr>, \<lparr> object = PyInt 2, data = PyInt 5 \<rparr>])
   \<and> snd (wrapper get_leaves ''dataframe'' [1] pool_client [PyInt 1, PyInt 2] Map.empty) =
     Inr (DataFrameOut
       [\<lparr> object = PyInt 1, data = PyInt 2 \<rparr>, \<lparr> object = PyInt 1, data = PyInt 3 \<rparr>,
        \<lparr> object = PyInt 2, data = PyInt 4 \<rparr>, \<lparr> object = PyInt 2, data = PyInt 5 \<rparr>])"
proof -
  let ?out = "DataFrameOut
       [\<lparr> object = PyInt 1, data = PyInt 2 \<rparr>, \<lparr> object = PyInt 1, data = PyInt 3 \<rparr>,
        \<lparr> object = PyInt 2, data = PyInt 4 \<rparr>, \<lparr> object = PyInt 2, data = PyInt 5 \<rparr>]"
  have p: "n_jobs pool_client = ConfInt 4" and four: "(1::int) < 4"
    by (simp_all add: pool_client_def)
  have same: "\<forall>item\<in>set [PyInt 1, PyInt 2].
      get_leaves (pool_client\<lparr> n_jobs := ConfInt 1 \<rparr>) item Map.empty =
      get_leaves pool_client item Map.empty"
    by (simp add: get_leaves_def)
  have pool: "snd (wrapper get_leaves ''dataframe'' [1] pool_client [PyInt 1, PyInt 2] Map.empty) =
      Inr ?out"
    by (simp add: run_defs get_leaves_def pool_client_def)
  have "snd (wrapper get_leaves ''dataframe'' [] (pool_client\<lparr> n_jobs := ConfInt 1 \<rparr>)
         [PyInt 1, PyInt 2] Map.empty) = Inr ?out"
    using pool pool_matches_sequential [where meth=get_leaves and self=pool_client
      and kwargs=Map.empty and picks="[1]" and picks'="[]" and output_format="''dataframe''"
      and out="?out", OF p four same]
    by blast
  then show ?thesis using pool by blast
qed

subsection \<open>C9: an output format the wrapper does not know\<close>

text \<open>
  The sentence for C9 reads: with any other output format the wrapper returns
  \<^verbatim>\<open>None\<close> for every input sequence and never raises. The method is invoked
  before the output is assembled, so its exception still leaves the wrapper.
\<close>

theorem unknown_format_counterexample:
  "snd (wrapper unavailable ''table'' [] sequential_client [PyInt 1] Map.empty) =
     Inl (Raised ''service unavailable'')
   \<and> snd (wrapper unavailable ''table'' [] pool_client [PyInt 1] Map.empty) =
     Inl (Raised ''service unavailable'')"
  by (simp add: run_defs unavailable_def sequential_client_def pool_client_def)

text \<open>
  Claim C9, as the code has it. With an output format other than \<^verbatim>\<open>"list"\<close>,
  \<^verbatim>\<open>"dict"\<close> and \<^verbatim>\<open>"dataframe"\<close>, on every input on which the method returns
  for every item, the wrapper returns \<^verbatim>\<open>None\<close>: the conditional of lines 85 to 95
  has no \<^verbatim>\<open>else\<close>, and nothing is raised and no aggregate returned.
\<close>

theorem unknown_format_returns_None:
  assumes "n_jobs self = ConfInt n" and "1 \<le> n"
    and "output_format \<noteq> ''list''" and "output_format \<noteq> ''dict''"
    and "output_format \<noteq> ''dataframe''"
    and "\<forall>item\<in>set array. meth self item kwargs = Inr (f item)"
  shows "snd (wrapper meth output_format picks self array kwargs) = Inr NoneOut"
  using wrapper_success [where meth=meth and self=self and kwargs=kwargs and f=f, OF assms(6)]
    assms(3,4,5)
  by (simp add: assemble_def)

text \<open>The theorem with the format \<^verbatim>\<open>"table"\<close>: the method has run on both items.\<close>

theorem unknown_format_returns_None_witness:
  "wrapper get_leaves ''table'' [1] pool_client [PyInt 1, PyInt 2] Map.empty =
     (\<lparr> calls = [PyInt 2, PyInt 1], ticks = 2 \<rparr>, Inr NoneOut)"
proof -
  let ?f = "\<lambda>item. case item of PyInt k \<Rightarrow> PyList [PyInt (2 * k), PyInt (2 * k + 1)] | _ \<Rightarrow> PyNone"
  have ok: "\<forall>item\<in>set [PyInt 1, PyInt 2]. get_leaves pool_client item Map.empty = Inr (?f item)"
    by (simp add: get_leaves_def)
  have p: "n_jobs pool_client = ConfInt 4" and four: "(1::int) \<le> 4"
    by (simp_all add: pool_client_def)
  have fmt: "''table'' \<noteq> ''list''" "''table'' \<noteq> ''dict''" "''table'' \<noteq> ''dataframe''"
    by simp_all
  show ?thesis
    using unknown_format_returns_None [where meth=get_leaves and self=pool_client
      and kwargs=Map.empty and f="?f" and picks="[1]" and output_format="''table''",
      OF p four fmt ok]
    by (simp add: run_defs get_leaves_def pool_client_def)
qed

subsection \<open>C10: which branch runs\<close>

text \<open>\<^verbatim>\<open>v == 1\<close> holds of the \<^verbatim>\<open>int\<close> 1 and of a number of another type of value 1.\<close>

lemma py_eq_int_one: "py_eq_int v 1 = (v = ConfInt 1 \<or> v = ConfFloat 1)"
  by (cases v) auto

text \<open>
  The sentence for C10 reads: the sequential branch is taken only when \<^verbatim>\<open>n_jobs\<close> is
  exactly the integer 1, and every other value takes the pool. Line 73 tests
  \<^verbatim>\<open>self.n_jobs == 1\<close>, and \<^verbatim>\<open>1.0 == 1\<close> holds: a client constructed with
  \<^verbatim>\<open>n_jobs=1.0\<close> runs the loop, calling the method on the items in input order
  whatever the picks, where a client with four workers calls the pool, which under the
  same picks completes the second task first.
\<close>

theorem branch_on_n_jobs_counterexample:
  "ConfFloat 1 \<noteq> ConfInt 1
   \<and> n_jobs (GrottoClient_init [''n_jobs'' \<mapsto> ConfFloat 1]) = ConfFloat 1
   \<and> execute get_leaves [1] (GrottoClient_init [''n_jobs'' \<mapsto> ConfFloat 1])
         [PyInt 1, PyInt 2] Map.empty =
       sequential_loop get_leaves (GrottoClient_init [''n_jobs'' \<mapsto> ConfFloat 1]) Map.empty
         True [PyInt 1, PyInt 2] [] no_effects
   \<and> execute get_leaves [1] (GrottoClient_init [''n_jobs'' \<mapsto> ConfFloat 1])
         [PyInt 1, PyInt 2] Map.empty =
       (\<lparr> calls = [PyInt 1, PyInt 2], ticks = 0 \<rparr>,
        Inr [PyList [PyInt 2, PyInt 3], PyList [PyInt 4, PyInt 5]])
   \<and> execute get_leaves [1] pool_client [PyInt 1, PyInt 2] Map.empty =
       (\<lparr> calls = [PyInt 2, PyInt 1], ticks = 2 \<rparr>,
        Inr [PyList [PyInt 2, PyInt 3], PyList [PyInt 4, PyInt 5]])"
  by (simp add: run_defs get_leaves_def GrottoClient_init_def pool_client_def)

text \<open>
  Claim C10, as the code has it. The wrapper runs the sequential loop exactly when
  \<^verbatim>\<open>self.n_jobs == 1\<close> holds in Python: when \<^verbatim>\<open>n_jobs\<close> is the \<^verbatim>\<open>int\<close> 1 (or
  \<^verbatim>\<open>True\<close>) or a number of another type of value 1, such as the \<^verbatim>\<open>float\<close> 1.0. For
  every other value of \<^verbatim>\<open>n_jobs\<close> it calls the worker pool. A client constructed
  without the keyword \<^verbatim>\<open>n_jobs\<close> has \<^verbatim>\<open>n_jobs = None\<close>, so its calls go to the
  pool, with \<^verbatim>\<open>None\<close> as the pool's size.
\<close>

theorem branch_on_n_jobs:
  "(n_jobs self = ConfInt 1 \<or> n_jobs self = ConfFloat 1 \<longrightarrow>
      execute meth picks self array kwargs =
        sequential_loop meth self kwargs (py_eq_int (verbose self) 0) array [] no_effects)
   \<and> (n_jobs self \<noteq> ConfInt 1 \<and> n_jobs self \<noteq> ConfFloat 1 \<longrightarrow>
      execute meth picks self array kwargs =
        Parallel (n_jobs self) (py_eq_int (verbose self) 0) picks
          (map (\<lambda>item. delayed meth self item kwargs) array) no_effects)
   \<and> (init_kwargs ''n_jobs'' = None \<longrightarrow>
      n_jobs (GrottoClient_init init_kwargs) = ConfNone
      \<and> execute meth picks (GrottoClient_init init_kwargs) array kwargs =
        Parallel ConfNone (py_eq_int (verbose (GrottoClient_init init_kwargs)) 0) picks
          (map (\<lambda>item. delayed meth (GrottoClient_init init_kwargs) item kwargs) array)
          no_effects)"
proof -
  have seq: "py_eq_int (n_jobs self) 1 = (n_jobs self = ConfInt 1 \<or> n_jobs self = ConfFloat 1)"
    by (rule py_eq_int_one)
  have dflt: "init_kwargs ''n_jobs'' = None \<Longrightarrow> n_jobs (GrottoClient_init init_kwargs) = ConfNone"
    by (simp add: GrottoClient_init_def)
  show ?thesis
    using seq dflt by (auto simp: execute_def)
qed

text \<open>
  The theorem at three clients on two nodes. The default client calls the pool, here a
  pool that completes the tasks in input order; the client constructed with
  \<^verbatim>\<open>n_jobs=1\<close> runs the loop; the client with four workers calls the pool, which may
  complete the second task first.
\<close>

theorem branch_on_n_jobs_witness:
  "n_jobs (GrottoClient_init Map.empty) = ConfNone
   \<and> execute get_leaves [] (GrottoClient_init Map.empty) [PyInt 1, PyInt 2] Map.empty =
       Parallel ConfNone True []
         [delayed get_leaves (GrottoClient_init Map.empty) (PyInt 1) Map.empty,
          delayed get_leaves (GrottoClient_init Map.empty) (PyInt 2) Map.empty]
         no_effects
   \<and> execute get_leaves [] (GrottoClient_init Map.empty) [PyInt 1, PyInt 2] Map.empty =
       (\<lparr> calls = [PyInt 1, PyInt 2], ticks = 0 \<rparr>,
        Inr [PyList [PyInt 2, PyInt 3], PyList [PyInt 4, PyInt 5]])
   \<and> execute get_leaves [1] (GrottoClient_init [''n_jobs'' \<mapsto> ConfInt 1])
         [PyInt 1, PyInt 2] Map.empty =
       (\<lparr> calls = [PyInt 1, PyInt 2], ticks = 0 \<rparr>,
        Inr [PyList [PyInt 2, PyInt 3], PyList [PyInt 4, PyInt 5]])
   \<and> execute get_leaves [1] pool_client [PyInt 1, PyInt 2] Map.empty =
       (\<lparr> calls = [PyInt 2, PyInt 1], ticks = 2 \<rparr>,
        Inr [PyList [PyInt 2, PyInt 3], PyList [PyInt 4, PyInt 5]])"
proof -
  let ?dflt = "GrottoClient_init Map.empty"
  let ?one = "GrottoClient_init [''n_jobs'' \<mapsto> ConfInt 1]"
  have none: "(Map.empty :: string \<rightharpoonup> pyconf) ''n_jobs'' = None" by simp
  have one: "n_jobs ?one = ConfInt 1 \<or> n_jobs ?one = ConfFloat 1"
    by (simp add: GrottoClient_init_def)
  have four: "n_jobs pool_client \<noteq> ConfInt 1 \<and> n_jobs pool_client \<noteq> ConfFloat 1"
    by (simp add: pool_client_def)
  have d: "n_jobs ?dflt = ConfNone"
    and pool_d: "execute get_leaves [] ?dflt [PyInt 1, PyInt 2] Map.empty =
        Parallel ConfNone (py_eq_int (verbose ?dflt) 0) []
          (map (\<lambda>item. delayed get_leaves ?dflt item Map.empty) [PyInt 1, PyInt 2]) no_effects"
    using branch_on_n_jobs [where init_kwargs=Map.empty and meth=get_leaves and picks="[]"
      and array="[PyInt 1, PyInt 2]" and kwargs=Map.empty] none
    by blast+
  have seq: "execute get_leaves [1] ?one [PyInt 1, PyInt 2] Map.empty =
        sequential_loop get_leaves ?one Map.empty (py_eq_int (verbose ?one) 0)
          [PyInt 1, PyInt 2] [] no_effects"
    using branch_on_n_jobs [where self="?one" and meth=get_leaves and picks="[1]"
      and array="[PyInt 1, PyInt 2]" and kwargs=Map.empty] one
    by blast
  have pool_4: "execute get_leaves [1] pool_client [PyInt 1, PyInt 2] Map.empty =
        Parallel (n_jobs pool_client) (py_eq_int (verbose pool_client) 0) [1]
          (map (\<lambda>item. delayed get_leaves pool_client item Map.empty) [PyInt 1, PyInt 2])
          no_effects"
    using branch_on_n_jobs [where self=pool_client and meth=get_leaves and picks="[1]"
      and array="[PyInt 1, PyInt 2]" and kwargs=Map.empty] four
    by blast
  have v: "py_eq_int (verbose ?dflt) 0" "py_eq_int (verbose ?one) 0"
    by (simp_all add: GrottoClient_init_def)
  show ?thesis
    unfolding pool_d seq pool_4 using d v
    by (simp add: Parallel_def delayed_def run_task_def next_pick_def remove_nth_def
      invoke_def tqdm_update_def no_effects_def enumerate_eq_zip get_leaves_def
      pool_client_def)
qed

end
